theory Spec2Isabelle
  imports Main "HOL-Library.Word"
begin

unbundle bit_operations_syntax

section \<open>JavaScript strings\<close>

text \<open>
  A JavaScript string is a sequence of 16-bit code units. \<open>js\<close> writes a literal:
  \<open>js ''cache.json''\<close> is the string \<^verbatim>\<open>'cache.json'\<close> of the source.
\<close>

type_synonym jschar = "16 word"
type_synonym jsstring = "jschar list"

definition js :: "string \<Rightarrow> jsstring" where
  "js s = map of_char s"

section \<open>The host: files of lib/node-utility\<close>

text \<open>
  Modelled from the spec: the class \<open>File\<close> of \<^verbatim>\<open>lib/node-utility/File\<close> is imported by
  \<^verbatim>\<open>utility.ts\<close> and is not among the sources. The spec gives the collaborator as
  \<^verbatim>\<open>exists(path) -> bool, read(path) -> text, write(path, contents)\<close>, the cache document as
  "a file named cache.json inside that folder" and a backing file as "root folder + name".
  The host is the platform's path separator and the regular files of the disk, each with
  the text that reading it gives. A path that names no regular file (nothing there, or a
  directory) is outside the domain of \<open>disk\<close>.
\<close>

record host =
  sep :: jsstring
  disk :: "jsstring \<rightharpoonup> jsstring"

record File =
  path :: jsstring

datatype error = SyntaxError | NoSuchFile jsstring | Error jsstring

text \<open>\<^verbatim>\<open>Array.prototype.join\<close> on strings.\<close>

fun join :: "jsstring \<Rightarrow> jsstring list \<Rightarrow> jsstring" where
  "join s [] = []"
| "join s [x] = x"
| "join s (x # y # ys) = x @ s @ join s (y # ys)"

definition File_fromArray :: "host \<Rightarrow> jsstring list \<Rightarrow> File" where
  "File_fromArray h pathArray = \<lparr>path = join (sep h) pathArray\<rparr>"

definition IsFile :: "host \<Rightarrow> File \<Rightarrow> bool" where
  "IsFile h f = (disk h (path f) \<noteq> None)"

definition Read :: "host \<Rightarrow> File \<Rightarrow> error + jsstring" where
  "Read h f = (case disk h (path f) of None \<Rightarrow> Inl (NoSuchFile (path f)) | Some t \<Rightarrow> Inr t)"

definition Write :: "host \<Rightarrow> File \<Rightarrow> jsstring \<Rightarrow> host" where
  "Write h f str = h\<lparr>disk := (disk h)(path f \<mapsto> str)\<rparr>"

section \<open>The cache document\<close>

text \<open>\<^verbatim>\<open>interface FileCacheInfo { version: string; files: { name: string; sha: string; }[]; }\<close>\<close>

record entry =
  name :: jsstring
  sha :: jsstring

record FileCacheInfo =
  version :: jsstring
  files :: "entry list"

record FileCache =
  folder :: File
  cacheFile :: File
  cache :: FileCacheInfo

text \<open>\<^verbatim>\<open>Array.prototype.findIndex\<close>: the index of the first element satisfying the
  predicate, \<open>-1\<close> when there is none.\<close>

primrec findIndex :: "('a \<Rightarrow> bool) \<Rightarrow> 'a list \<Rightarrow> int" where
  "findIndex p [] = -1"
| "findIndex p (x # xs) =
     (if p x then 0 else (let i = findIndex p xs in if i = -1 then -1 else i + 1))"

text \<open>\<^verbatim>\<open>xs.splice(idx, 1)\<close> for an index in range: the element at \<open>idx\<close> is taken out.\<close>

definition splice1 :: "'a list \<Rightarrow> nat \<Rightarrow> 'a list" where
  "splice1 xs idx = take idx xs @ drop (Suc idx) xs"

definition add :: "FileCache \<Rightarrow> jsstring \<Rightarrow> jsstring \<Rightarrow> FileCache" where
  "add this n s =
     (let idx = findIndex (\<lambda>inf. name inf = n) (files (cache this)) in
      if idx \<noteq> -1 then
        this\<lparr>cache := (cache this)\<lparr>files :=
          (files (cache this))[nat idx := (files (cache this) ! nat idx)\<lparr>sha := s\<rparr>]\<rparr>\<rparr>
      else
        this\<lparr>cache := (cache this)\<lparr>files :=
          files (cache this) @ [\<lparr>name = n, sha = s\<rparr>]\<rparr>\<rparr>)"

definition get :: "host \<Rightarrow> FileCache \<Rightarrow> jsstring \<Rightarrow> jsstring \<Rightarrow> File option" where
  "get h this n s =
     (let idx = findIndex (\<lambda>inf. name inf = n \<and> sha inf = s) (files (cache this)) in
      if idx = -1 then None
      else
        let f = File_fromArray h [path (folder this), name (files (cache this) ! nat idx)] in
        if \<not> IsFile h f then None
        else Some f)"

text \<open>The optional parameter \<^verbatim>\<open>name?: string\<close> is \<open>None\<close> when omitted. The test
  \<^verbatim>\<open>if (name)\<close> is JavaScript truthiness: false for \<^verbatim>\<open>undefined\<close> and for the empty string.\<close>

definition truthy :: "jsstring option \<Rightarrow> bool" where
  "truthy n = (case n of None \<Rightarrow> False | Some str \<Rightarrow> str \<noteq> [])"

definition clear :: "FileCache \<Rightarrow> jsstring option \<Rightarrow> FileCache" where
  "clear this n =
     (if truthy n then
        (let idx = findIndex (\<lambda>inf. Some (name inf) = n) (files (cache this)) in
         if idx \<noteq> -1 then
           this\<lparr>cache := (cache this)\<lparr>files := splice1 (files (cache this)) (nat idx)\<rparr>\<rparr>
         else this)
      else this\<lparr>cache := (cache this)\<lparr>files := []\<rparr>\<rparr>)"

section \<open>JSON text\<close>

text \<open>
  \<^verbatim>\<open>JSON.parse\<close> and \<^verbatim>\<open>JSON.stringify\<close> are built into the language. The model follows the
  JSON grammar of ECMA-404: a scanner that reads the text one code unit at a time, and a
  pushdown recogniser over its tokens. A number keeps its spelling: the cache document has
  none.
\<close>

definition ch :: "char \<Rightarrow> jschar" where
  "ch c = of_char c"

datatype json =
    JNull
  | JBool bool
  | JNumber jsstring
  | JString jsstring
  | JArray "json list"
  | JObject "(jsstring \<times> json) list"

datatype token =
    LBrace | RBrace | LBrack | RBrack | Colon | Comma
  | TString jsstring | TNumber jsstring | TTrue | TFalse | TNull

datatype numphase = Minus | Zero | IntDigits | Dot | FracDigits | Exp | ExpSign | ExpDigits

datatype lexstate =
    Idle
  | InString jsstring
  | InEscape jsstring
  | InUnicode jsstring jschar nat
  | InNumber numphase jsstring
  | InWord jsstring token

definition isDigit :: "jschar \<Rightarrow> bool" where
  "isDigit c = (ch CHR ''0'' \<le> c \<and> c \<le> ch CHR ''9'')"

definition json_ws :: "jschar \<Rightarrow> bool" where
  "json_ws c = (c = 0x20 \<or> c = 0x09 \<or> c = 0x0A \<or> c = 0x0D)"

definition num_final :: "numphase \<Rightarrow> bool" where
  "num_final p = (p = Zero \<or> p = IntDigits \<or> p = FracDigits \<or> p = ExpDigits)"

definition is_e :: "jschar \<Rightarrow> bool" where
  "is_e c = (c = ch CHR ''e'' \<or> c = ch CHR ''E'')"

fun num_next :: "numphase \<Rightarrow> jschar \<Rightarrow> numphase option" where
  "num_next Minus c =
     (if c = ch CHR ''0'' then Some Zero else if isDigit c then Some IntDigits else None)"
| "num_next Zero c =
     (if c = ch CHR ''.'' then Some Dot else if is_e c then Some Exp else None)"
| "num_next IntDigits c =
     (if isDigit c then Some IntDigits else if c = ch CHR ''.'' then Some Dot
      else if is_e c then Some Exp else None)"
| "num_next Dot c = (if isDigit c then Some FracDigits else None)"
| "num_next FracDigits c =
     (if isDigit c then Some FracDigits else if is_e c then Some Exp else None)"
| "num_next Exp c =
     (if c = ch CHR ''+'' \<or> c = ch CHR ''-'' then Some ExpSign
      else if isDigit c then Some ExpDigits else None)"
| "num_next ExpSign c = (if isDigit c then Some ExpDigits else None)"
| "num_next ExpDigits c = (if isDigit c then Some ExpDigits else None)"

text \<open>The scanner between tokens: the tokens that the code unit completes and the state
  it leaves, \<open>None\<close> for a code unit that starts no token.\<close>

definition start :: "jschar \<Rightarrow> (token list \<times> lexstate) option" where
  "start c =
     (if json_ws c then Some ([], Idle)
      else if c = ch CHR ''{'' then Some ([LBrace], Idle)
      else if c = ch CHR ''}'' then Some ([RBrace], Idle)
      else if c = ch CHR ''['' then Some ([LBrack], Idle)
      else if c = ch CHR '']'' then Some ([RBrack], Idle)
      else if c = ch CHR '':'' then Some ([Colon], Idle)
      else if c = ch CHR '','' then Some ([Comma], Idle)
      else if c = 0x22 then Some ([], InString [])
      else if c = ch CHR ''-'' then Some ([], InNumber Minus [c])
      else if c = ch CHR ''0'' then Some ([], InNumber Zero [c])
      else if isDigit c then Some ([], InNumber IntDigits [c])
      else if c = ch CHR ''t'' then Some ([], InWord (js ''rue'') TTrue)
      else if c = ch CHR ''f'' then Some ([], InWord (js ''alse'') TFalse)
      else if c = ch CHR ''n'' then Some ([], InWord (js ''ull'') TNull)
      else None)"

text \<open>The code unit an escape \<^verbatim>\<open>\c\<close> stands for (\<^verbatim>\<open>\u\<close> apart).\<close>

definition unescape :: "jschar \<Rightarrow> jschar option" where
  "unescape c =
     (if c = 0x22 then Some 0x22
      else if c = 0x5C then Some 0x5C
      else if c = ch CHR ''/'' then Some (ch CHR ''/'')
      else if c = ch CHR ''b'' then Some 0x08
      else if c = ch CHR ''f'' then Some 0x0C
      else if c = ch CHR ''n'' then Some 0x0A
      else if c = ch CHR ''r'' then Some 0x0D
      else if c = ch CHR ''t'' then Some 0x09
      else None)"

definition hexval :: "jschar \<Rightarrow> jschar option" where
  "hexval c =
     (if isDigit c then Some (c - ch CHR ''0'')
      else if ch CHR ''a'' \<le> c \<and> c \<le> ch CHR ''f'' then Some (c - ch CHR ''a'' + 10)
      else if ch CHR ''A'' \<le> c \<and> c \<le> ch CHR ''F'' then Some (c - ch CHR ''A'' + 10)
      else None)"

fun lex :: "lexstate \<Rightarrow> jsstring \<Rightarrow> token list option" where
  "lex Idle [] = Some []"
| "lex Idle (c # cs) =
     (case start c of None \<Rightarrow> None
      | Some (ts, st) \<Rightarrow> map_option ((@) ts) (lex st cs))"
| "lex (InString acc) [] = None"
| "lex (InString acc) (c # cs) =
     (if c = 0x22 then map_option ((#) (TString acc)) (lex Idle cs)
      else if c = 0x5C then lex (InEscape acc) cs
      else if c < 0x20 then None
      else lex (InString (acc @ [c])) cs)"
| "lex (InEscape acc) [] = None"
| "lex (InEscape acc) (c # cs) =
     (case unescape c of Some d \<Rightarrow> lex (InString (acc @ [d])) cs
      | None \<Rightarrow> if c = ch CHR ''u'' then lex (InUnicode acc 0 0) cs else None)"
| "lex (InUnicode acc v k) [] = None"
| "lex (InUnicode acc v k) (c # cs) =
     (case hexval c of None \<Rightarrow> None
      | Some d \<Rightarrow>
          if k = 3 then lex (InString (acc @ [v * 16 + d])) cs
          else lex (InUnicode acc (v * 16 + d) (Suc k)) cs)"
| "lex (InNumber p acc) [] = (if num_final p then Some [TNumber acc] else None)"
| "lex (InNumber p acc) (c # cs) =
     (case num_next p c of Some p' \<Rightarrow> lex (InNumber p' (acc @ [c])) cs
      | None \<Rightarrow>
          if num_final p then
            (case start c of None \<Rightarrow> None
             | Some (ts, st) \<Rightarrow> map_option ((@) (TNumber acc # ts)) (lex st cs))
          else None)"
| "lex (InWord rs t) [] = None"
| "lex (InWord rs t) (c # cs) =
     (case rs of [] \<Rightarrow> None
      | r # rs' \<Rightarrow>
          if c = r then
            (if rs' = [] then map_option ((#) t) (lex Idle cs) else lex (InWord rs' t) cs)
          else None)"

text \<open>The recogniser: what it expects next, and the containers it is inside of, the
  innermost first. An object under construction keeps its members in the order of their
  first occurrence; a member given again replaces the value, as \<^verbatim>\<open>JSON.parse\<close> does.\<close>

datatype expect = Value | ValueOrClose | KeyOrClose | Key | ColonExpected | CommaOrClose | End json

datatype frame =
    InArray "json list"
  | InObject "(jsstring \<times> json) list"
  | InMember "(jsstring \<times> json) list" jsstring

fun define_member :: "jsstring \<Rightarrow> json \<Rightarrow> (jsstring \<times> json) list \<Rightarrow> (jsstring \<times> json) list" where
  "define_member k v [] = [(k, v)]"
| "define_member k v ((k', v') # ms) =
     (if k' = k then (k, v) # ms else (k', v') # define_member k v ms)"

type_synonym pstate = "expect \<times> frame list"

fun finish :: "json \<Rightarrow> frame list \<Rightarrow> pstate option" where
  "finish v [] = Some (End v, [])"
| "finish v (InArray es # st) = Some (CommaOrClose, InArray (es @ [v]) # st)"
| "finish v (InMember ms k # st) = Some (CommaOrClose, InObject (define_member k v ms) # st)"
| "finish v (InObject ms # st) = None"

definition value_step :: "frame list \<Rightarrow> token \<Rightarrow> pstate option" where
  "value_step st t =
     (case t of
        TString s \<Rightarrow> finish (JString s) st
      | TNumber n \<Rightarrow> finish (JNumber n) st
      | TTrue \<Rightarrow> finish (JBool True) st
      | TFalse \<Rightarrow> finish (JBool False) st
      | TNull \<Rightarrow> finish JNull st
      | LBrack \<Rightarrow> Some (ValueOrClose, InArray [] # st)
      | LBrace \<Rightarrow> Some (KeyOrClose, InObject [] # st)
      | _ \<Rightarrow> None)"

definition key_step :: "frame list \<Rightarrow> token \<Rightarrow> pstate option" where
  "key_step st t =
     (case (t, st) of
        (TString k, InObject ms # st') \<Rightarrow> Some (ColonExpected, InMember ms k # st')
      | _ \<Rightarrow> None)"

definition close_step :: "frame list \<Rightarrow> token \<Rightarrow> pstate option" where
  "close_step st t =
     (case (t, st) of
        (RBrack, InArray es # st') \<Rightarrow> finish (JArray es) st'
      | (RBrace, InObject ms # st') \<Rightarrow> finish (JObject ms) st'
      | _ \<Rightarrow> None)"

definition comma_step :: "frame list \<Rightarrow> token \<Rightarrow> pstate option" where
  "comma_step st t =
     (case (t, st) of
        (Comma, InArray es # st') \<Rightarrow> Some (Value, st)
      | (Comma, InObject ms # st') \<Rightarrow> Some (Key, st)
      | _ \<Rightarrow> close_step st t)"

fun pstep :: "pstate \<Rightarrow> token \<Rightarrow> pstate option" where
  "pstep (Value, st) t = value_step st t"
| "pstep (ValueOrClose, st) t = (if t = RBrack then close_step st t else value_step st t)"
| "pstep (KeyOrClose, st) t = (if t = RBrace then close_step st t else key_step st t)"
| "pstep (Key, st) t = key_step st t"
| "pstep (ColonExpected, st) t = (if t = Colon then Some (Value, st) else None)"
| "pstep (CommaOrClose, st) t = comma_step st t"
| "pstep (End v, st) t = None"

primrec psteps :: "pstate \<Rightarrow> token list \<Rightarrow> pstate option" where
  "psteps s [] = Some s"
| "psteps s (t # ts) = (case pstep s t of None \<Rightarrow> None | Some s' \<Rightarrow> psteps s' ts)"

definition JSON_parse :: "jsstring \<Rightarrow> error + json" where
  "JSON_parse text =
     (case lex Idle text of
        None \<Rightarrow> Inl SyntaxError
      | Some ts \<Rightarrow>
          (case psteps (Value, []) ts of
             Some (End v, []) \<Rightarrow> Inr v
           | _ \<Rightarrow> Inl SyntaxError))"

text \<open>\<^verbatim>\<open>JSON.stringify\<close> of a string: the quoted string, with the escapes of
  \<^verbatim>\<open>QuoteJSONString\<close>. A surrogate pair is written as it is, a lone surrogate escaped.\<close>

definition hexdigit :: "jschar \<Rightarrow> jschar" where
  "hexdigit d = (if d < 10 then ch CHR ''0'' + d else ch CHR ''a'' + (d - 10))"

definition unicode_escape :: "jschar \<Rightarrow> jsstring" where
  "unicode_escape c =
     [0x5C, ch CHR ''u'', hexdigit (drop_bit 12 c), hexdigit (drop_bit 8 c AND 0xF),
      hexdigit (drop_bit 4 c AND 0xF), hexdigit (c AND 0xF)]"

definition quote1 :: "jschar \<Rightarrow> jsstring" where
  "quote1 c =
     (if c = 0x08 then [0x5C, ch CHR ''b'']
      else if c = 0x09 then [0x5C, ch CHR ''t'']
      else if c = 0x0A then [0x5C, ch CHR ''n'']
      else if c = 0x0C then [0x5C, ch CHR ''f'']
      else if c = 0x0D then [0x5C, ch CHR ''r'']
      else if c = 0x22 then [0x5C, 0x22]
      else if c = 0x5C then [0x5C, 0x5C]
      else if c < 0x20 then unicode_escape c
      else [c])"

definition leading_surrogate :: "jschar \<Rightarrow> bool" where
  "leading_surrogate c = (0xD800 \<le> c \<and> c \<le> 0xDBFF)"

definition trailing_surrogate :: "jschar \<Rightarrow> bool" where
  "trailing_surrogate c = (0xDC00 \<le> c \<and> c \<le> 0xDFFF)"

fun quote_units :: "jsstring \<Rightarrow> jsstring" where
  "quote_units [] = []"
| "quote_units [c] =
     (if leading_surrogate c \<or> trailing_surrogate c then unicode_escape c else quote1 c)"
| "quote_units (c # d # ds) =
     (if leading_surrogate c \<and> trailing_surrogate d then c # d # quote_units ds
      else if leading_surrogate c \<or> trailing_surrogate c then unicode_escape c @ quote_units (d # ds)
      else quote1 c @ quote_units (d # ds))"

definition quote :: "jsstring \<Rightarrow> jsstring" where
  "quote s = [0x22] @ quote_units s @ [0x22]"

text \<open>The cast of the parsed value to \<^verbatim>\<open>FileCacheInfo\<close>. The typed document is an object
  with the members \<^verbatim>\<open>version\<close> and \<^verbatim>\<open>files\<close>, in the order the cache writes them, and
  entries with the members \<^verbatim>\<open>name\<close> and \<^verbatim>\<open>sha\<close>. TypeScript does not check the cast: a
  value of another shape is no document of the model, and the model follows the code no
  further on it.\<close>

definition as_entry :: "json \<Rightarrow> entry option" where
  "as_entry j =
     (case j of
        JObject [(k1, JString n), (k2, JString s)] \<Rightarrow>
          if k1 = js ''name'' \<and> k2 = js ''sha'' then Some \<lparr>name = n, sha = s\<rparr> else None
      | _ \<Rightarrow> None)"

fun as_entries :: "json list \<Rightarrow> entry list option" where
  "as_entries [] = Some []"
| "as_entries (j # rest) =
     (case as_entry j of None \<Rightarrow> None
      | Some e \<Rightarrow> (case as_entries rest of None \<Rightarrow> None | Some es \<Rightarrow> Some (e # es)))"

definition as_FileCacheInfo :: "json \<Rightarrow> FileCacheInfo option" where
  "as_FileCacheInfo j =
     (case j of
        JObject [(k1, JString v), (k2, JArray es)] \<Rightarrow>
          if k1 = js ''version'' \<and> k2 = js ''files'' then
            (case as_entries es of None \<Rightarrow> None
             | Some fs \<Rightarrow> Some \<lparr>version = v, files = fs\<rparr>)
          else None
      | _ \<Rightarrow> None)"

text \<open>\<^verbatim>\<open>JSON.stringify\<close> of a document: no white space, the members in the order of their
  creation.\<close>

definition stringify_entry :: "entry \<Rightarrow> jsstring" where
  "stringify_entry e =
     js ''{'' @ quote (js ''name'') @ js '':'' @ quote (name e) @ js '','' @
     quote (js ''sha'') @ js '':'' @ quote (sha e) @ js ''}''"

definition JSON_stringify :: "FileCacheInfo \<Rightarrow> jsstring" where
  "JSON_stringify d =
     js ''{'' @ quote (js ''version'') @ js '':'' @ quote (version d) @ js '','' @
     quote (js ''files'') @ js '':'' @
     js ''['' @ join (js '','') (map stringify_entry (files d)) @ js '']'' @ js ''}''"

section \<open>Construction and saving\<close>

text \<open>What the constructor does: it returns the new object, or throws, or returns an
  object whose \<^verbatim>\<open>cache\<close> field holds a parsed value that is no \<^verbatim>\<open>FileCacheInfo\<close>: the typed
  model ends there.\<close>

datatype construction = Returns FileCache | Throws error | ReturnsUntyped json

definition FileCache_new :: "host \<Rightarrow> File \<Rightarrow> construction" where
  "FileCache_new h rootFolder =
     (let cacheFile = File_fromArray h [path rootFolder, js ''cache.json''] in
      if IsFile h cacheFile then
        (case Read h cacheFile of
           Inl e \<Rightarrow> Throws e
         | Inr content \<Rightarrow>
             (case JSON_parse content of
                Inl e \<Rightarrow> Throws e
              | Inr j \<Rightarrow>
                  (case as_FileCacheInfo j of
                     None \<Rightarrow> ReturnsUntyped j
                   | Some d \<Rightarrow> Returns \<lparr>folder = rootFolder, cacheFile = cacheFile, cache = d\<rparr>)))
      else
        Returns \<lparr>folder = rootFolder, cacheFile = cacheFile,
                 cache = \<lparr>version = js ''1.0'', files = []\<rparr>\<rparr>)"

definition save :: "host \<Rightarrow> FileCache \<Rightarrow> host" where
  "save h this = Write h (cacheFile this) (JSON_stringify (cache this))"

section \<open>Calls on a cache\<close>

text \<open>A method call on a \<^verbatim>\<open>FileCache\<close> object, what it returns, and the host and the
  object after it.\<close>

datatype call =
    Add jsstring jsstring
  | Get jsstring jsstring
  | Clear "jsstring option"
  | Save

datatype reply = Void | Handle "File option"

fun invoke :: "call \<Rightarrow> host \<times> FileCache \<Rightarrow> reply \<times> host \<times> FileCache" where
  "invoke (Add n s) (h, this) = (Void, h, add this n s)"
| "invoke (Get n s) (h, this) = (Handle (get h this n s), h, this)"
| "invoke (Clear n) (h, this) = (Void, h, clear this n)"
| "invoke Save (h, this) = (Void, save h this, this)"

fun invoke_all :: "call list \<Rightarrow> host \<times> FileCache \<Rightarrow> host \<times> FileCache" where
  "invoke_all [] st = st"
| "invoke_all (c # cs) st = invoke_all cs (snd (invoke c st))"

definition names :: "FileCache \<Rightarrow> jsstring list" where
  "names this = map name (files (cache this))"

text \<open>The spec's words for \<^verbatim>\<open>add\<close>: "If an entry with \<^verbatim>\<open>name\<close> exists, overwrite its
  \<^verbatim>\<open>sha\<close>; otherwise append a new entry". The code is compared with it below.\<close>

fun upsert :: "jsstring \<Rightarrow> jsstring \<Rightarrow> entry list \<Rightarrow> entry list" where
  "upsert n s [] = [\<lparr>name = n, sha = s\<rparr>]"
| "upsert n s (e # es) = (if name e = n then e\<lparr>sha := s\<rparr> # es else e # upsert n s es)"


section \<open>Concrete hosts and caches\<close>

definition root0 :: File where
  "root0 = \<lparr>path = js ''/root''\<rparr>"

definition empty_host :: host where
  "empty_host = \<lparr>sep = js ''/'', disk = Map.empty\<rparr>"

definition fresh_cache :: FileCache where
  "fresh_cache = \<lparr>folder = root0, cacheFile = \<lparr>path = js ''/root/cache.json''\<rparr>,
     cache = \<lparr>version = js ''1.0'', files = []\<rparr>\<rparr>"

definition example_host :: host where
  "example_host = \<lparr>sep = js ''/'', disk = [js ''/root/f.bin'' \<mapsto> js ''data'']\<rparr>"

definition example_cache :: FileCache where
  "example_cache = \<lparr>folder = root0, cacheFile = \<lparr>path = js ''/root/cache.json''\<rparr>,
     cache = \<lparr>version = js ''1.0'', files = [\<lparr>name = js ''f.bin'', sha = js ''aaa''\<rparr>]\<rparr>\<rparr>"

definition two_cache :: FileCache where
  "two_cache = \<lparr>folder = root0, cacheFile = \<lparr>path = js ''/root/cache.json''\<rparr>,
     cache = \<lparr>version = js ''1.0'',
              files = [\<lparr>name = js ''a'', sha = js ''1''\<rparr>, \<lparr>name = js ''b'', sha = js ''2''\<rparr>]\<rparr>\<rparr>"

text \<open>A cache document on disk in which a name occurs twice.\<close>

definition dup_text :: jsstring where
  \<open>dup_text = js ''{"version":"1.0","files":[{"name":"a","sha":"1"},{"name":"a","sha":"2"}]}''\<close>

definition dup_host :: host where
  "dup_host = \<lparr>sep = js ''/'', disk = [js ''/root/cache.json'' \<mapsto> dup_text]\<rparr>"

definition dup_cache :: FileCache where
  "dup_cache = \<lparr>folder = root0, cacheFile = \<lparr>path = js ''/root/cache.json''\<rparr>,
     cache = \<lparr>version = js ''1.0'',
              files = [\<lparr>name = js ''a'', sha = js ''1''\<rparr>, \<lparr>name = js ''a'', sha = js ''2''\<rparr>]\<rparr>\<rparr>"

text \<open>A cache document on disk that is no JSON text.\<close>

definition bad_host :: host where
  "bad_host = \<lparr>sep = js ''/'', disk = [js ''/root/cache.json'' \<mapsto> js ''{bad'']\<rparr>"

text \<open>The document after \<^verbatim>\<open>add("a", "1")\<close> on a fresh cache.\<close>

definition a1_doc :: FileCacheInfo where
  "a1_doc = \<lparr>version = js ''1.0'', files = [\<lparr>name = js ''a'', sha = js ''1''\<rparr>]\<rparr>"

section \<open>Facts about the model\<close>

lemma findIndex_ge: "- 1 \<le> findIndex p xs"
  by (induction xs) (auto simp: Let_def)

lemma findIndex_none_iff: "findIndex p xs = - 1 \<longleftrightarrow> (\<forall>x\<in>set xs. \<not> p x)"
proof (induction xs)
  case Nil
  show ?case by simp
next
  case (Cons x xs)
  have "- 1 \<le> findIndex p xs" by (rule findIndex_ge)
  with Cons show ?case by (auto simp: Let_def)
qed

lemma findIndex_found:
  assumes "findIndex p xs \<noteq> - 1"
  shows "0 \<le> findIndex p xs \<and> nat (findIndex p xs) < length xs \<and> p (xs ! nat (findIndex p xs))
         \<and> (\<forall>j < nat (findIndex p xs). \<not> p (xs ! j))"
  using assms
proof (induction xs)
  case Nil
  then show ?case by simp
next
  case (Cons x xs)
  show ?case
  proof (cases "p x")
    case True
    then show ?thesis by simp
  next
    case False
    with Cons.prems have ne: "findIndex p xs \<noteq> - 1" by (auto simp: Let_def split: if_splits)
    from Cons.IH [OF ne] have ih: "0 \<le> findIndex p xs" "nat (findIndex p xs) < length xs"
      "p (xs ! nat (findIndex p xs))" "\<forall>j < nat (findIndex p xs). \<not> p (xs ! j)" by auto
    have eq: "findIndex p (x # xs) = findIndex p xs + 1" using False ne by (simp add: Let_def)
    have n: "nat (findIndex p xs + 1) = Suc (nat (findIndex p xs))" using ih(1) by simp
    show ?thesis unfolding eq n using ih False
      by (auto simp: less_Suc_eq_0_disj)
  qed
qed

lemma get_eq:
  "get h this n s =
     (if (\<exists>e\<in>set (files (cache this)). name e = n \<and> sha e = s)
         \<and> disk h (path (folder this) @ sep h @ n) \<noteq> None
      then Some \<lparr>path = path (folder this) @ sep h @ n\<rparr> else None)"
proof (cases "findIndex (\<lambda>inf. name inf = n \<and> sha inf = s) (files (cache this)) = - 1")
  case True
  then show ?thesis by (simp add: get_def findIndex_none_iff)
next
  case False
  from findIndex_found [OF False]
  have nm: "name (files (cache this) ! nat (findIndex (\<lambda>inf. name inf = n \<and> sha inf = s) (files (cache this)))) = n"
    by simp
  from False have ex: "\<exists>e\<in>set (files (cache this)). name e = n \<and> sha e = s"
    by (simp add: findIndex_none_iff)
  show ?thesis using False ex
    by (simp add: get_def Let_def nm File_fromArray_def IsFile_def)
qed

lemma findIndex_upsert:
  "(let i = findIndex (\<lambda>inf. name inf = n) fs in
      if i \<noteq> - 1 then fs[nat i := (fs ! nat i)\<lparr>sha := s\<rparr>] else fs @ [\<lparr>name = n, sha = s\<rparr>])
   = upsert n s fs"
proof (induction fs)
  case Nil
  show ?case by simp
next
  case (Cons e es)
  have ge: "- 1 \<le> findIndex (\<lambda>inf. name inf = n) es" by (rule findIndex_ge)
  show ?case
  proof (cases "name e = n")
    case True
    then show ?thesis by simp
  next
    case False
    show ?thesis
    proof (cases "findIndex (\<lambda>inf. name inf = n) es = - 1")
      case True
      with False Cons show ?thesis by (simp add: Let_def)
    next
      case ne: False
      with ge have ge0: "0 \<le> findIndex (\<lambda>inf. name inf = n) es" by simp
      then have "nat (findIndex (\<lambda>inf. name inf = n) es + 1) = Suc (nat (findIndex (\<lambda>inf. name inf = n) es))"
        by simp
      with False ne ge0 Cons show ?thesis by (simp add: Let_def)
    qed
  qed
qed

lemma add_files: "files (cache (add this n s)) = upsert n s (files (cache this))"
  using findIndex_upsert [of n "files (cache this)" s]
  by (simp add: add_def Let_def split: if_splits)

lemma add_frame:
  "folder (add this n s) = folder this \<and> cacheFile (add this n s) = cacheFile this
   \<and> version (cache (add this n s)) = version (cache this)"
  by (simp add: add_def Let_def)

lemma upsert_names:
  "map name (upsert n s fs) = (if n \<in> set (map name fs) then map name fs else map name fs @ [n])"
  by (induction fs) auto

lemma upsert_twice:
  "length (filter (\<lambda>e. name e = n) fs) \<le> 1 \<Longrightarrow>
   filter (\<lambda>e. name e = n) (upsert n s2 (upsert n s1 fs)) = [\<lparr>name = n, sha = s2\<rparr>]"
proof (induction fs)
  case Nil
  show ?case by simp
next
  case (Cons e es)
  show ?case
  proof (cases "name e = n")
    case True
    with Cons.prems have "filter (\<lambda>e. name e = n) es = []" by simp
    with True show ?thesis by simp
  next
    case False
    with Cons show ?thesis by simp
  qed
qed

lemma clear_all: "\<not> truthy n \<Longrightarrow> clear this n = this\<lparr>cache := (cache this)\<lparr>files := []\<rparr>\<rparr>"
  by (simp add: clear_def)

lemma clear_absent:
  "n \<noteq> [] \<Longrightarrow> \<forall>e\<in>set (files (cache this)). name e \<noteq> n \<Longrightarrow> clear this (Some n) = this"
  by (simp add: clear_def truthy_def findIndex_none_iff)

lemma clear_present:
  assumes "n \<noteq> []" and "\<exists>e\<in>set (files (cache this)). name e = n"
  shows "\<exists>i < length (files (cache this)).
            name (files (cache this) ! i) = n
          \<and> (\<forall>j < i. name (files (cache this) ! j) \<noteq> n)
          \<and> clear this (Some n) =
              this\<lparr>cache := (cache this)\<lparr>files := take i (files (cache this)) @ drop (Suc i) (files (cache this))\<rparr>\<rparr>"
proof -
  let ?fs = "files (cache this)"
  let ?i = "findIndex (\<lambda>inf. name inf = n) ?fs"
  from assms(2) have ne: "?i \<noteq> - 1" by (simp add: findIndex_none_iff)
  from findIndex_found [OF ne] have f: "nat ?i < length ?fs" "name (?fs ! nat ?i) = n"
    "\<forall>j < nat ?i. name (?fs ! j) \<noteq> n" by auto
  from assms(1) ne have "clear this (Some n) =
      this\<lparr>cache := (cache this)\<lparr>files := take (nat ?i) ?fs @ drop (Suc (nat ?i)) ?fs\<rparr>\<rparr>"
    by (simp add: clear_def truthy_def splice1_def Let_def)
  with f show ?thesis by blast
qed

lemma filter_without:
  "i < length xs \<Longrightarrow> \<not> Q (xs ! i) \<Longrightarrow> filter Q (take i xs @ drop (Suc i) xs) = filter Q xs"
proof -
  assume a: "i < length xs" "\<not> Q (xs ! i)"
  have "filter Q xs = filter Q (take i xs @ xs ! i # drop (Suc i) xs)"
    using a(1) by (simp add: id_take_nth_drop [symmetric])
  with a(2) show ?thesis by simp
qed

lemma distinct_without:
  "i < length xs \<Longrightarrow> distinct (map f xs) \<Longrightarrow>
   distinct (map f (take i xs @ drop (Suc i) xs)) \<and> f (xs ! i) \<notin> f ` set (take i xs @ drop (Suc i) xs)"
proof -
  assume a: "i < length xs" "distinct (map f xs)"
  have "distinct (map f (take i xs @ xs ! i # drop (Suc i) xs))"
    using a by (simp add: id_take_nth_drop [symmetric])
  then show ?thesis by auto
qed

lemma clear_others:
  assumes "n \<noteq> []"
  shows "filter (\<lambda>e. name e \<noteq> n) (files (cache (clear this (Some n))))
       = filter (\<lambda>e. name e \<noteq> n) (files (cache this))"
proof (cases "\<exists>e\<in>set (files (cache this)). name e = n")
  case True
  from clear_present [OF assms True] obtain i where
    i: "i < length (files (cache this))" "name (files (cache this) ! i) = n"
       "clear this (Some n) =
          this\<lparr>cache := (cache this)\<lparr>files := take i (files (cache this)) @ drop (Suc i) (files (cache this))\<rparr>\<rparr>"
    by blast
  show ?thesis using i(1,2) by (simp add: i(3) filter_without del: filter_append)
next
  case False
  then show ?thesis using assms by (simp add: clear_absent)
qed

lemma clear_distinct_gone:
  assumes "n \<noteq> []" and "distinct (map name (files (cache this)))"
  shows "\<forall>e\<in>set (files (cache (clear this (Some n)))). name e \<noteq> n"
proof (cases "\<exists>e\<in>set (files (cache this)). name e = n")
  case True
  from clear_present [OF assms(1) True] obtain i where
    i: "i < length (files (cache this))" "name (files (cache this) ! i) = n"
       "clear this (Some n) =
          this\<lparr>cache := (cache this)\<lparr>files := take i (files (cache this)) @ drop (Suc i) (files (cache this))\<rparr>\<rparr>"
    by blast
  from distinct_without [OF i(1) assms(2)] i(2)
  have "n \<notin> name ` set (take i (files (cache this)) @ drop (Suc i) (files (cache this)))" by simp
  then show ?thesis by (auto simp: i(3))
next
  case False
  then show ?thesis using assms by (simp add: clear_absent)
qed

lemma clear_names_distinct:
  assumes "distinct (names this)"
  shows "distinct (names (clear this n))"
proof (cases "truthy n")
  case False
  then show ?thesis by (simp add: clear_all names_def)
next
  case True
  then obtain m where m: "n = Some m" "m \<noteq> []" by (auto simp: truthy_def split: option.splits)
  show ?thesis
  proof (cases "\<exists>e\<in>set (files (cache this)). name e = m")
    case True
    from clear_present [OF m(2) True] obtain i where
      i: "i < length (files (cache this))"
         "clear this (Some m) =
            this\<lparr>cache := (cache this)\<lparr>files := take i (files (cache this)) @ drop (Suc i) (files (cache this))\<rparr>\<rparr>"
      by blast
    from distinct_without [OF i(1), of name] assms
    show ?thesis by (simp add: names_def m(1) i(2))
  next
    case False
    then show ?thesis using assms m by (simp add: clear_absent)
  qed
qed

lemma add_names_distinct: "distinct (names this) \<Longrightarrow> distinct (names (add this n s))"
  by (simp add: names_def add_files upsert_names)

lemma invoke_names_distinct:
  "distinct (names this) \<Longrightarrow> distinct (names (snd (snd (invoke c (h, this)))))"
  by (cases c) (simp_all add: add_names_distinct clear_names_distinct)

lemma invoke_all_names_distinct:
  "distinct (names (snd st)) \<Longrightarrow> distinct (names (snd (invoke_all cs st)))"
proof (induction cs arbitrary: st)
  case Nil
  then show ?case by simp
next
  case (Cons c cs)
  obtain h this where st: "st = (h, this)" by (cases st)
  from Cons.prems st have "distinct (names (snd (snd (invoke c st))))"
    by (simp add: invoke_names_distinct)
  from Cons.IH [OF this] show ?case by simp
qed

lemma get_empty: "files (cache this) = [] \<Longrightarrow> get h this n s = None"
  by (simp add: get_def)

lemmas scan_simps = js_def ch_def start_def json_ws_def isDigit_def unescape_def hexval_def
  num_final_def is_e_def

lemmas parse_simps = JSON_parse_def value_step_def key_step_def close_step_def comma_step_def
  as_FileCacheInfo_def as_entry_def

lemma dup_lex: "lex Idle dup_text = Some [LBrace, TString (js ''version''), Colon, TString (js ''1.0''), Comma,
   TString (js ''files''), Colon, LBrack,
     LBrace, TString (js ''name''), Colon, TString (js ''a''), Comma, TString (js ''sha''), Colon, TString (js ''1''), RBrace, Comma,
     LBrace, TString (js ''name''), Colon, TString (js ''a''), Comma, TString (js ''sha''), Colon, TString (js ''2''), RBrace,
   RBrack, RBrace]"
  by (simp add: dup_text_def scan_simps)

lemma dup_parse: "map_sum id as_FileCacheInfo (JSON_parse dup_text) = Inr (Some (cache dup_cache))"
  by (simp add: dup_lex parse_simps dup_cache_def js_def)

lemmas quote_simps = quote_def quote1_def leading_surrogate_def trailing_surrogate_def
  JSON_stringify_def stringify_entry_def

lemma JSON_parse_error: "JSON_parse content = Inl e \<Longrightarrow> e = SyntaxError"
  by (auto simp: JSON_parse_def split: option.splits expect.splits list.splits prod.splits)

lemma new_absent:
  "\<not> IsFile h (File_fromArray h [path root, js ''cache.json'']) \<Longrightarrow>
   FileCache_new h root =
     Returns \<lparr>folder = root, cacheFile = File_fromArray h [path root, js ''cache.json''],
              cache = \<lparr>version = js ''1.0'', files = []\<rparr>\<rparr>"
  by (simp add: FileCache_new_def)

lemma new_present:
  "disk h (path (File_fromArray h [path root, js ''cache.json''])) = Some content \<Longrightarrow>
   FileCache_new h root =
     (case JSON_parse content of
        Inl e \<Rightarrow> Throws e
      | Inr j \<Rightarrow>
          (case as_FileCacheInfo j of
             None \<Rightarrow> ReturnsUntyped j
           | Some d \<Rightarrow> Returns \<lparr>folder = root,
                cacheFile = File_fromArray h [path root, js ''cache.json''], cache = d\<rparr>))"
  by (simp add: FileCache_new_def IsFile_def Read_def)

lemma bad_parse: "JSON_parse (js ''{bad'') = Inl SyntaxError"
  by (simp add: JSON_parse_def scan_simps)

lemma dup_parse': "JSON_parse dup_text = Inr (JObject [(js ''version'', JString (js ''1.0'')),
   (js ''files'', JArray [JObject [(js ''name'', JString (js ''a'')), (js ''sha'', JString (js ''1''))],
                          JObject [(js ''name'', JString (js ''a'')), (js ''sha'', JString (js ''2''))]])])"
  by (simp add: dup_lex parse_simps js_def)

lemma a1_stringify:
  \<open>JSON_stringify a1_doc = js ''{"version":"1.0","files":[{"name":"a","sha":"1"}]}''\<close>
  by (simp add: a1_doc_def quote_simps js_def ch_def)

lemma a1_lex:
  \<open>lex Idle (js ''{"version":"1.0","files":[{"name":"a","sha":"1"}]}'') =
    Some [LBrace, TString (js ''version''), Colon, TString (js ''1.0''), Comma,
          TString (js ''files''), Colon, LBrack,
          LBrace, TString (js ''name''), Colon, TString (js ''a''), Comma,
          TString (js ''sha''), Colon, TString (js ''1''), RBrace,
          RBrack, RBrace]\<close>
  by (simp add: scan_simps)

lemma a1_parse:
  \<open>JSON_parse (js ''{"version":"1.0","files":[{"name":"a","sha":"1"}]}'') =
    Inr (JObject [(js ''version'', JString (js ''1.0'')),
      (js ''files'', JArray [JObject [(js ''name'', JString (js ''a'')), (js ''sha'', JString (js ''1''))]])])\<close>
  by (simp add: a1_lex parse_simps) (simp add: js_def)

lemma a1_cast:
  "as_FileCacheInfo (JObject [(js ''version'', JString (js ''1.0'')),
      (js ''files'', JArray [JObject [(js ''name'', JString (js ''a'')), (js ''sha'', JString (js ''1''))]])])
   = Some a1_doc"
  by (simp add: as_FileCacheInfo_def as_entry_def a1_doc_def)

lemma a1_parses: "\<exists>j. JSON_parse (JSON_stringify a1_doc) = Inr j \<and> as_FileCacheInfo j = Some a1_doc"
  unfolding a1_stringify a1_parse using a1_cast by simp

section \<open>The claims about the file cache\<close>

text \<open>
  C1. For every cache state and every pair of strings (name, sha), \<^verbatim>\<open>get(name, sha)\<close> returns
  a handle to the file at the path made of the root folder and the name if and only if
  some entry of the document has this name and this sha and that file exists on disk; in
  every other case it returns absent.
\<close>

theorem get_hit_iff:
  "get h this n s =
     (if (\<exists>e\<in>set (files (cache this)). name e = n \<and> sha e = s)
         \<and> IsFile h (File_fromArray h [path (folder this), n])
      then Some (File_fromArray h [path (folder this), n]) else None)
   \<and> path (File_fromArray h [path (folder this), n]) = path (folder this) @ sep h @ n"
  by (simp add: get_eq IsFile_def File_fromArray_def)

theorem get_hit_iff_witness:
  "get example_host example_cache (js ''f.bin'') (js ''aaa'') = Some \<lparr>path = js ''/root/f.bin''\<rparr>
   \<and> get example_host example_cache (js ''f.bin'') (js ''bbb'') = None
   \<and> get example_host example_cache (js ''g.bin'') (js ''aaa'') = None
   \<and> get empty_host example_cache (js ''f.bin'') (js ''aaa'') = None"
  using get_hit_iff [of example_host example_cache "js ''f.bin''" "js ''aaa''"]
    get_hit_iff [of example_host example_cache "js ''f.bin''" "js ''bbb''"]
    get_hit_iff [of example_host example_cache "js ''g.bin''" "js ''aaa''"]
    get_hit_iff [of empty_host example_cache "js ''f.bin''" "js ''aaa''"]
  by (simp add: example_host_def empty_host_def example_cache_def root0_def IsFile_def
      File_fromArray_def js_def)

text \<open>
  C2, as amended. \<^verbatim>\<open>add(name, sha)\<close> has upsert semantics: in every state containing an entry
  named name, the call overwrites the sha of the first such entry and changes nothing
  else; in every state containing no entry named name, it appends the new entry; and from
  every state with at most one entry named name, \<^verbatim>\<open>add(name, s1)\<close> then \<^verbatim>\<open>add(name, s2)\<close> leaves
  exactly one entry for name, whose sha is s2.
\<close>

theorem add_upsert:
  "((\<exists>e\<in>set (files (cache this)). name e = n) \<longrightarrow>
      (\<exists>i < length (files (cache this)).
          name (files (cache this) ! i) = n
        \<and> (\<forall>j < i. name (files (cache this) ! j) \<noteq> n)
        \<and> files (cache (add this n s)) = (files (cache this))[i := \<lparr>name = n, sha = s\<rparr>]))
   \<and> ((\<forall>e\<in>set (files (cache this)). name e \<noteq> n) \<longrightarrow>
        files (cache (add this n s)) = files (cache this) @ [\<lparr>name = n, sha = s\<rparr>])
   \<and> (length (filter (\<lambda>e. name e = n) (files (cache this))) \<le> 1 \<longrightarrow>
        filter (\<lambda>e. name e = n) (files (cache (add (add this n s1) n s2))) = [\<lparr>name = n, sha = s2\<rparr>])
   \<and> folder (add this n s) = folder this \<and> cacheFile (add this n s) = cacheFile this
   \<and> version (cache (add this n s)) = version (cache this)"
proof (intro conjI impI)
  assume ex: "\<exists>e\<in>set (files (cache this)). name e = n"
  let ?fs = "files (cache this)"
  let ?i = "findIndex (\<lambda>inf. name inf = n) ?fs"
  from ex have ne: "?i \<noteq> - 1" by (simp add: findIndex_none_iff)
  from findIndex_found [OF ne] have f: "nat ?i < length ?fs" "name (?fs ! nat ?i) = n"
    "\<forall>j < nat ?i. name (?fs ! j) \<noteq> n" by auto
  have "(?fs ! nat ?i)\<lparr>sha := s\<rparr> = \<lparr>name = n, sha = s\<rparr>" using f(2) by simp
  with ne have "files (cache (add this n s)) = ?fs[nat ?i := \<lparr>name = n, sha = s\<rparr>]"
    by (simp add: add_def Let_def)
  with f show "\<exists>i < length ?fs. name (?fs ! i) = n \<and> (\<forall>j < i. name (?fs ! j) \<noteq> n)
        \<and> files (cache (add this n s)) = ?fs[i := \<lparr>name = n, sha = s\<rparr>]"
    by blast
next
  assume "\<forall>e\<in>set (files (cache this)). name e \<noteq> n"
  then have "findIndex (\<lambda>inf. name inf = n) (files (cache this)) = - 1"
    by (simp add: findIndex_none_iff)
  then show "files (cache (add this n s)) = files (cache this) @ [\<lparr>name = n, sha = s\<rparr>]"
    by (simp add: add_def)
next
  assume "length (filter (\<lambda>e. name e = n) (files (cache this))) \<le> 1"
  then show "filter (\<lambda>e. name e = n) (files (cache (add (add this n s1) n s2))) = [\<lparr>name = n, sha = s2\<rparr>]"
    by (simp add: add_files upsert_twice)
qed (simp_all add: add_frame)

theorem add_upsert_witness:
  "files (cache (add two_cache (js ''a'') (js ''9''))) =
     [\<lparr>name = js ''a'', sha = js ''9''\<rparr>, \<lparr>name = js ''b'', sha = js ''2''\<rparr>]
   \<and> files (cache (add example_cache (js ''a'') (js ''9''))) =
     [\<lparr>name = js ''f.bin'', sha = js ''aaa''\<rparr>, \<lparr>name = js ''a'', sha = js ''9''\<rparr>]
   \<and> filter (\<lambda>e. name e = js ''a'') (files (cache (add (add two_cache (js ''a'') (js ''8'')) (js ''a'') (js ''9''))))
       = [\<lparr>name = js ''a'', sha = js ''9''\<rparr>]"
proof (intro conjI)
  have ex: "\<exists>e\<in>set (files (cache two_cache)). name e = js ''a''"
    by (simp add: two_cache_def)
  from add_upsert [of two_cache "js ''a''" "js ''9''", THEN conjunct1, THEN mp, OF ex]
  obtain i where i: "i < length (files (cache two_cache))" "name (files (cache two_cache) ! i) = js ''a''"
    "files (cache (add two_cache (js ''a'') (js ''9''))) =
       (files (cache two_cache))[i := \<lparr>name = js ''a'', sha = js ''9''\<rparr>]"
    by blast
  from i(1,2) have "i = 0" by (auto simp: two_cache_def js_def less_Suc_eq)
  with i(3) show "files (cache (add two_cache (js ''a'') (js ''9''))) =
     [\<lparr>name = js ''a'', sha = js ''9''\<rparr>, \<lparr>name = js ''b'', sha = js ''2''\<rparr>]"
    by (simp add: two_cache_def)
next
  have no: "\<forall>e\<in>set (files (cache example_cache)). name e \<noteq> js ''a''"
    by (simp add: example_cache_def js_def)
  from add_upsert [of example_cache "js ''a''" "js ''9''", THEN conjunct2, THEN conjunct1, THEN mp, OF no]
  show "files (cache (add example_cache (js ''a'') (js ''9''))) =
     [\<lparr>name = js ''f.bin'', sha = js ''aaa''\<rparr>, \<lparr>name = js ''a'', sha = js ''9''\<rparr>]"
    by (simp add: example_cache_def)
next
  have one: "length (filter (\<lambda>e. name e = js ''a'') (files (cache two_cache))) \<le> 1"
    by (simp add: two_cache_def js_def)
  from add_upsert [of two_cache "js ''a''" _ "js ''8''" "js ''9''", THEN conjunct2, THEN conjunct2,
      THEN conjunct1, THEN mp, OF one]
  show "filter (\<lambda>e. name e = js ''a'') (files (cache (add (add two_cache (js ''a'') (js ''8'')) (js ''a'') (js ''9''))))
       = [\<lparr>name = js ''a'', sha = js ''9''\<rparr>]" .
qed

text \<open>
  C2 as stated fails: in a state with two entries named a, two calls of \<^verbatim>\<open>add\<close> for a leave
  two entries for a.
\<close>

theorem add_upsert_counterexample:
  "files (cache (add (add dup_cache (js ''a'') (js ''3'')) (js ''a'') (js ''4''))) =
     [\<lparr>name = js ''a'', sha = js ''4''\<rparr>, \<lparr>name = js ''a'', sha = js ''2''\<rparr>]"
  by (simp add: add_def dup_cache_def)

text \<open>
  C3, as amended. For every cache state and every non-empty name, \<^verbatim>\<open>clear(name)\<close> removes the
  first entry with that name if there is one and is a no-op if there is none, leaving all
  other entries unchanged (so that, in a state whose names are pairwise distinct, no entry
  with that name is left); \<^verbatim>\<open>clear()\<close> with the argument omitted, and \<^verbatim>\<open>clear("")\<close> as well,
  removes all entries, so every subsequent \<^verbatim>\<open>get\<close> returns absent.
\<close>

theorem clear_selective:
  "(n \<noteq> [] \<longrightarrow>
      ((\<forall>e\<in>set (files (cache this)). name e \<noteq> n) \<longrightarrow> clear this (Some n) = this)
    \<and> ((\<exists>e\<in>set (files (cache this)). name e = n) \<longrightarrow>
         (\<exists>i < length (files (cache this)).
             name (files (cache this) ! i) = n
           \<and> (\<forall>j < i. name (files (cache this) ! j) \<noteq> n)
           \<and> clear this (Some n) =
               this\<lparr>cache := (cache this)\<lparr>files :=
                 take i (files (cache this)) @ drop (Suc i) (files (cache this))\<rparr>\<rparr>))
    \<and> filter (\<lambda>e. name e \<noteq> n) (files (cache (clear this (Some n))))
        = filter (\<lambda>e. name e \<noteq> n) (files (cache this))
    \<and> (distinct (map name (files (cache this))) \<longrightarrow>
         (\<forall>e\<in>set (files (cache (clear this (Some n)))). name e \<noteq> n)))
   \<and> clear this None = this\<lparr>cache := (cache this)\<lparr>files := []\<rparr>\<rparr>
   \<and> clear this (Some []) = clear this None
   \<and> (\<forall>h m s. get h (clear this None) m s = None)"
proof (intro conjI impI allI)
  show "clear this None = this\<lparr>cache := (cache this)\<lparr>files := []\<rparr>\<rparr>"
    by (simp add: clear_all truthy_def)
  show "clear this (Some []) = clear this None"
    by (simp add: clear_all truthy_def)
  show "get h (clear this None) m s = None" for h m s
    by (simp add: clear_all truthy_def get_empty)
qed (simp_all add: clear_absent clear_present clear_others clear_distinct_gone)

theorem clear_selective_witness:
  "js ''a'' \<noteq> []
   \<and> filter (\<lambda>e. name e \<noteq> js ''a'') (files (cache (clear two_cache (Some (js ''a'')))))
       = [\<lparr>name = js ''b'', sha = js ''2''\<rparr>]
   \<and> js ''a'' \<notin> set (names (clear two_cache (Some (js ''a''))))
   \<and> clear two_cache (Some (js ''f.bin'')) = two_cache
   \<and> get example_host (clear two_cache None) (js ''a'') (js ''1'') = None"
proof -
  have ne: "js ''a'' \<noteq> []" "js ''f.bin'' \<noteq> []" by (simp_all add: js_def)
  have d: "distinct (map name (files (cache two_cache)))" by (simp add: two_cache_def js_def)
  have no: "\<forall>e\<in>set (files (cache two_cache)). name e \<noteq> js ''f.bin''"
    by (simp add: two_cache_def js_def)
  note a = clear_selective [of "js ''a''" two_cache, THEN conjunct1, THEN mp, OF ne(1)]
  note f = clear_selective [of "js ''f.bin''" two_cache, THEN conjunct1, THEN mp, OF ne(2)]
  have 1: "filter (\<lambda>e. name e \<noteq> js ''a'') (files (cache (clear two_cache (Some (js ''a'')))))
       = [\<lparr>name = js ''b'', sha = js ''2''\<rparr>]"
    using a [THEN conjunct2, THEN conjunct2, THEN conjunct1] by (simp add: two_cache_def js_def)
  have 2: "js ''a'' \<notin> set (names (clear two_cache (Some (js ''a''))))"
    using a [THEN conjunct2, THEN conjunct2, THEN conjunct2, THEN mp, OF d]
    by (auto simp: names_def)
  have 3: "clear two_cache (Some (js ''f.bin'')) = two_cache"
    using f [THEN conjunct1, THEN mp, OF no] .
  have 4: "get example_host (clear two_cache None) (js ''a'') (js ''1'') = None"
    using clear_selective [of "js ''a''" two_cache] by blast
  from ne(1) 1 2 3 4 show ?thesis by blast
qed

text \<open>
  C3 as stated fails: the empty string is a name string, no entry of the example has it, and
  \<^verbatim>\<open>clear("")\<close> removes the entry of another name.
\<close>

theorem clear_selective_counterexample:
  "files (cache example_cache) = [\<lparr>name = js ''f.bin'', sha = js ''aaa''\<rparr>]
   \<and> files (cache (clear example_cache (Some []))) = []"
  by (simp add: clear_def truthy_def example_cache_def)

text \<open>
  C4, as amended. For every \<^verbatim>\<open>FileCache\<close> constructed over a folder that has no cache.json, or
  from a document on disk whose names are pairwise distinct, and after any sequence of
  \<^verbatim>\<open>add\<close>, \<^verbatim>\<open>get\<close>, \<^verbatim>\<open>clear\<close> and \<^verbatim>\<open>save\<close> calls, the names of the entries of its document are
  pairwise distinct.
\<close>

theorem names_distinct_invariant:
  "FileCache_new h root = Returns c0 \<Longrightarrow>
   \<not> IsFile h (File_fromArray h [path root, js ''cache.json'']) \<or> distinct (names c0) \<Longrightarrow>
   distinct (names (snd (invoke_all cs (h, c0))))"
proof -
  assume n: "FileCache_new h root = Returns c0"
    and d: "\<not> IsFile h (File_fromArray h [path root, js ''cache.json'']) \<or> distinct (names c0)"
  have "distinct (names c0)"
  proof (cases "IsFile h (File_fromArray h [path root, js ''cache.json''])")
    case True
    with d show ?thesis by simp
  next
    case False
    from new_absent [OF False] n show ?thesis by (auto simp: names_def)
  qed
  then show ?thesis using invoke_all_names_distinct [of "(h, c0)" cs] by simp
qed

theorem names_distinct_invariant_witness:
  "FileCache_new empty_host root0 = Returns fresh_cache
   \<and> \<not> IsFile empty_host (File_fromArray empty_host [path root0, js ''cache.json''])
   \<and> distinct (names (snd (invoke_all
        [Add (js ''a'') (js ''1''), Add (js ''b'') (js ''2''), Add (js ''a'') (js ''3''),
         Clear (Some (js ''a'')), Save] (empty_host, fresh_cache))))"
proof -
  have h: "\<not> IsFile empty_host (File_fromArray empty_host [path root0, js ''cache.json''])"
    by (simp add: empty_host_def IsFile_def)
  have n: "FileCache_new empty_host root0 = Returns fresh_cache"
    by (simp add: new_absent [OF h] fresh_cache_def)
       (simp add: empty_host_def File_fromArray_def root0_def js_def)
  show ?thesis
    by (rule conjI [OF n conjI [OF h names_distinct_invariant [OF n disjI1 [OF h]]]])
qed

text \<open>
  C4 as stated fails: the constructor loads a document in which a name occurs twice as it
  is, and the calls after it keep both entries.
\<close>

theorem names_distinct_counterexample:
  "FileCache_new dup_host root0 = Returns dup_cache
   \<and> names (snd (invoke_all [Add (js ''a'') (js ''3''), Save] (dup_host, dup_cache)))
       = [js ''a'', js ''a'']"
proof -
  have "disk dup_host (path (File_fromArray dup_host [path root0, js ''cache.json''])) = Some dup_text"
    by (simp add: dup_host_def File_fromArray_def root0_def js_def)
  from new_present [OF this] have "FileCache_new dup_host root0 = Returns dup_cache"
    by (simp add: dup_parse')
       (simp add: dup_host_def root0_def dup_cache_def File_fromArray_def js_def as_FileCacheInfo_def as_entry_def)
  moreover have "names (snd (invoke_all [Add (js ''a'') (js ''3''), Save] (dup_host, dup_cache)))
       = [js ''a'', js ''a'']"
    by (simp add: names_def add_def dup_cache_def)
  ultimately show ?thesis by simp
qed

text \<open>
  C5. Persistence round trip: for a cache constructed over a folder with no cache.json, after
  \<^verbatim>\<open>add("a", "1")\<close> and \<^verbatim>\<open>save()\<close>, a new \<^verbatim>\<open>FileCache\<close> constructed over the same folder is equal
  to the original one, and its \<^verbatim>\<open>get("a", "1")\<close> returns what the original's returns, after
  the save and before it.
\<close>

theorem persistence_round_trip:
  assumes "\<not> IsFile h (File_fromArray h [path root, js ''cache.json''])"
  shows "case FileCache_new h root of
           Returns c0 \<Rightarrow>
             (let c1 = add c0 (js ''a'') (js ''1''); h1 = save h c1 in
              case FileCache_new h1 root of
                Returns c2 \<Rightarrow>
                    c2 = c1
                  \<and> get h1 c2 (js ''a'') (js ''1'') = get h1 c1 (js ''a'') (js ''1'')
                  \<and> get h1 c2 (js ''a'') (js ''1'') = get h c1 (js ''a'') (js ''1'')
              | _ \<Rightarrow> False)
         | _ \<Rightarrow> False"
proof -
  let ?cf = "File_fromArray h [path root, js ''cache.json'']"
  let ?c0 = "\<lparr>folder = root, cacheFile = ?cf, cache = \<lparr>version = js ''1.0'', files = []\<rparr>\<rparr>"
  let ?c1 = "\<lparr>folder = root, cacheFile = ?cf, cache = a1_doc\<rparr>"
  let ?h1 = "save h ?c1"
  have c0: "FileCache_new h root = Returns ?c0" using assms by (rule new_absent)
  have c1: "add ?c0 (js ''a'') (js ''1'') = ?c1" by (simp add: add_def a1_doc_def)
  have cf1: "File_fromArray ?h1 [path root, js ''cache.json''] = ?cf"
    by (simp add: save_def Write_def File_fromArray_def)
  have "disk ?h1 (path ?cf) = Some (JSON_stringify a1_doc)"
    by (simp add: save_def Write_def)
  then have "disk ?h1 (path (File_fromArray ?h1 [path root, js ''cache.json''])) = Some (JSON_stringify a1_doc)"
    by (simp only: cf1)
  from new_present [OF this] a1_parses
  have c2: "FileCache_new ?h1 root = Returns ?c1" by (auto simp: cf1)
  have ne: "path root @ sep h @ js ''a'' \<noteq> path root @ sep h @ js ''cache.json''"
    by (simp add: js_def)
  have g: "get ?h1 ?c1 (js ''a'') (js ''1'') = get h ?c1 (js ''a'') (js ''1'')"
    using ne by (simp add: get_eq save_def Write_def File_fromArray_def)
  show ?thesis using g by (simp add: c0 c1 c2 Let_def)
qed

theorem persistence_round_trip_witness:
  "\<not> IsFile example_host (File_fromArray example_host [path root0, js ''cache.json''])
   \<and> FileCache_new (save example_host (add fresh_cache (js ''a'') (js ''1''))) root0
       = Returns (add fresh_cache (js ''a'') (js ''1''))"
proof -
  have h: "\<not> IsFile example_host (File_fromArray example_host [path root0, js ''cache.json''])"
    by (simp add: example_host_def IsFile_def File_fromArray_def root0_def js_def)
  have n: "FileCache_new example_host root0 = Returns fresh_cache"
    by (simp add: new_absent [OF h] fresh_cache_def)
       (simp add: example_host_def File_fromArray_def root0_def js_def)
  show ?thesis using persistence_round_trip [OF h] h
    by (simp add: n Let_def split: construction.splits)
qed

text \<open>
  C6. No disk mutation without save: every sequence of calls without a \<^verbatim>\<open>save()\<close> leaves the
  host, and so the file cache.json on disk, as it was; \<^verbatim>\<open>add\<close> and \<^verbatim>\<open>clear\<close> change the
  document in memory only.
\<close>

theorem no_disk_mutation_without_save:
  "\<forall>c\<in>set cs. c \<noteq> Save \<Longrightarrow> fst (invoke_all cs (h, this)) = h"
proof (induction cs arbitrary: this)
  case Nil
  show ?case by simp
next
  case (Cons c cs)
  then have "c \<noteq> Save" by simp
  then obtain this' r where "invoke c (h, this) = (r, h, this')" by (cases c) auto
  with Cons show ?case by simp
qed

theorem no_disk_mutation_without_save_witness:
  "Save \<notin> set [Add (js ''a'') (js ''1''), Clear None, Add (js ''b'') (js ''2''), Clear (Some (js ''b''))]
   \<and> fst (invoke_all [Add (js ''a'') (js ''1''), Clear None, Add (js ''b'') (js ''2''),
        Clear (Some (js ''b''))] (dup_host, dup_cache)) = dup_host"
proof -
  have h: "\<forall>c\<in>set [Add (js ''a'') (js ''1''), Clear None, Add (js ''b'') (js ''2''),
      Clear (Some (js ''b''))]. c \<noteq> Save"
    by simp
  from no_disk_mutation_without_save [OF h] h show ?thesis by blast
qed

text \<open>
  C7. Construction contract: over a root folder whose cache.json does not exist, the
  constructor initialises the document to version "1.0" with no entries; if cache.json
  exists and is valid JSON, the parsed document is loaded; if it exists and is no valid
  JSON, construction fails with an error and does not fall back to a fresh document.
\<close>

theorem construction_contract:
  "(\<not> IsFile h (File_fromArray h [path root, js ''cache.json'']) \<longrightarrow>
      FileCache_new h root =
        Returns \<lparr>folder = root, cacheFile = File_fromArray h [path root, js ''cache.json''],
                 cache = \<lparr>version = js ''1.0'', files = []\<rparr>\<rparr>)
   \<and> (\<forall>content j. Read h (File_fromArray h [path root, js ''cache.json'']) = Inr content
          \<and> JSON_parse content = Inr j \<longrightarrow>
        FileCache_new h root =
          (case as_FileCacheInfo j of
             Some d \<Rightarrow> Returns \<lparr>folder = root,
                cacheFile = File_fromArray h [path root, js ''cache.json''], cache = d\<rparr>
           | None \<Rightarrow> ReturnsUntyped j))
   \<and> (\<forall>content e. Read h (File_fromArray h [path root, js ''cache.json'']) = Inr content
          \<and> JSON_parse content = Inl e \<longrightarrow>
        FileCache_new h root = Throws SyntaxError)"
proof (intro conjI allI impI)
  fix content j
  assume a: "Read h (File_fromArray h [path root, js ''cache.json'']) = Inr content \<and> JSON_parse content = Inr j"
  then have "disk h (path (File_fromArray h [path root, js ''cache.json''])) = Some content"
    by (simp add: Read_def split: option.splits)
  from new_present [OF this] a
  show "FileCache_new h root =
          (case as_FileCacheInfo j of
             Some d \<Rightarrow> Returns \<lparr>folder = root,
                cacheFile = File_fromArray h [path root, js ''cache.json''], cache = d\<rparr>
           | None \<Rightarrow> ReturnsUntyped j)"
    by (simp split: option.splits)
next
  fix content e
  assume a: "Read h (File_fromArray h [path root, js ''cache.json'']) = Inr content \<and> JSON_parse content = Inl e"
  then have "disk h (path (File_fromArray h [path root, js ''cache.json''])) = Some content"
    by (simp add: Read_def split: option.splits)
  from new_present [OF this] a JSON_parse_error [of content e]
  show "FileCache_new h root = Throws SyntaxError" by simp
qed (simp add: new_absent)

theorem construction_contract_witness:
  "FileCache_new empty_host root0 = Returns fresh_cache
   \<and> FileCache_new dup_host root0 = Returns dup_cache
   \<and> FileCache_new bad_host root0 = Throws SyntaxError"
proof (intro conjI)
  show "FileCache_new empty_host root0 = Returns fresh_cache"
    using construction_contract [of empty_host root0]
    by (simp add: empty_host_def root0_def fresh_cache_def IsFile_def File_fromArray_def js_def)
  show "FileCache_new dup_host root0 = Returns dup_cache"
    using construction_contract [of dup_host root0, THEN conjunct2, THEN conjunct1, rule_format, of dup_text, OF conjI, OF _ dup_parse']
    by (simp add: dup_host_def root0_def dup_cache_def Read_def File_fromArray_def js_def as_FileCacheInfo_def as_entry_def)
  show "FileCache_new bad_host root0 = Throws SyntaxError"
    using construction_contract [of bad_host root0, THEN conjunct2, THEN conjunct2, rule_format, of "js ''{bad''", OF conjI, OF _ bad_parse]
    by (simp add: bad_host_def root0_def Read_def File_fromArray_def js_def)
qed

text \<open>
  C8. Stale index tolerance: in every state with an entry matching (name, sha) whose backing
  file does not exist on disk, \<^verbatim>\<open>get(name, sha)\<close> returns absent, raises no error and leaves
  the document in memory as it was.
\<close>

theorem stale_index_tolerance:
  "\<exists>e\<in>set (files (cache this)). name e = n \<and> sha e = s \<Longrightarrow>
   \<not> IsFile h (File_fromArray h [path (folder this), n]) \<Longrightarrow>
   invoke (Get n s) (h, this) = (Handle None, h, this)"
  by (simp add: get_eq IsFile_def File_fromArray_def)

theorem stale_index_tolerance_witness:
  "(\<exists>e\<in>set (files (cache example_cache)). name e = js ''f.bin'' \<and> sha e = js ''aaa'')
   \<and> \<not> IsFile empty_host (File_fromArray empty_host [path (folder example_cache), js ''f.bin''])
   \<and> invoke (Get (js ''f.bin'') (js ''aaa'')) (empty_host, example_cache)
       = (Handle None, empty_host, example_cache)"
proof -
  have e: "\<exists>e\<in>set (files (cache example_cache)). name e = js ''f.bin'' \<and> sha e = js ''aaa''"
    by (simp add: example_cache_def)
  have f: "\<not> IsFile empty_host (File_fromArray empty_host [path (folder example_cache), js ''f.bin''])"
    by (simp add: IsFile_def empty_host_def)
  from stale_index_tolerance [OF e f] e f show ?thesis by blast
qed

end
